theory Spec2Isabelle
  imports Main
begin

section \<open>Python values and exceptions\<close>

text \<open>The exceptions that can end a run: a failed HTTP status
  (\<^verbatim>\<open>raise_for_status\<close>), an unorderable comparison inside \<^verbatim>\<open>sorted\<close>, and
  \<^verbatim>\<open>sys.exit(message)\<close>.\<close>

datatype error = HTTPError | TypeError | SystemExit string

text \<open>\<^verbatim>\<open>str(n)\<close> for integers, as the f-strings of the program format them.\<close>

fun str_nat :: "nat \<Rightarrow> string" where
  "str_nat n =
     (if n < 10 then [''0123456789'' ! n]
      else str_nat (n div 10) @ [''0123456789'' ! (n mod 10)])"

declare str_nat.simps [simp del]

definition str_int :: "int \<Rightarrow> string" where
  "str_int i = (if i < 0 then CHR ''-'' # str_nat (nat (- i)) else str_nat (nat i))"

text \<open>\<^verbatim>\<open>str.strip()\<close>: whitespace removed at both ends.\<close>

definition is_space :: "char \<Rightarrow> bool" where
  "is_space ch = (ch \<in> {CHR '' '', CHR 0x09, CHR 0x0A, CHR 0x0B, CHR 0x0C, CHR 0x0D,
                          CHR 0x1C, CHR 0x1D, CHR 0x1E, CHR 0x1F})"

definition strip :: "string \<Rightarrow> string" where
  "strip s = rev (dropWhile is_space (rev (dropWhile is_space s)))"

section \<open>Data model\<close>

text \<open>
  A client record as the upstream API delivers it and as the program reads it:
  \<^verbatim>\<open>c['mac']\<close>, \<^verbatim>\<open>c.get('vlan')\<close>, \<^verbatim>\<open>c.get('switchport')\<close>. The MAC is a
  string present on every record, so the lookup \<^verbatim>\<open>c['mac']\<close> always succeeds;
  \<^verbatim>\<open>vlan\<close> is an integer or Python's \<^verbatim>\<open>None\<close> (also the value \<^verbatim>\<open>dict.get\<close>
  gives for a missing key); \<^verbatim>\<open>switchport\<close> is a string or \<^verbatim>\<open>None\<close>.
\<close>

record client =
  mac :: string
  vlan :: "int option"
  switchport :: "string option"

text \<open>Python truthiness of an optional string: \<^verbatim>\<open>None\<close> and \<^verbatim>\<open>''\<close> are falsy.\<close>

definition truthy :: "string option \<Rightarrow> bool" where
  "truthy v = (case v of None \<Rightarrow> False | Some s \<Rightarrow> s \<noteq> [])"

text \<open>
  A dictionary keyed by VLAN values. The keys are Python values, so \<^verbatim>\<open>None\<close> is a
  possible key; \<^verbatim>\<open>d.get(k, default)\<close> is \<open>dict_get\<close>.
\<close>

type_synonym segment_map = "int option \<rightharpoonup> string"

definition dict_get :: "('k \<rightharpoonup> 'v) \<Rightarrow> 'k \<Rightarrow> 'v \<Rightarrow> 'v" where
  "dict_get d k dflt = (case d k of None \<Rightarrow> dflt | Some v \<Rightarrow> v)"

section \<open>CSV Writer\<close>

subsection \<open>The rows handed to the csv writer\<close>

definition header_row :: "string list" where
  "header_row =
     [''MAC Address (Required)'',
      ''Segment (Required for allow state)'',
      ''Lock to Port (Optional)'',
      ''Site (Optional)'',
      ''Building (Optional)'',
      ''Floor (Optional)'',
      ''Allow or Deny (Required)'',
      ''Description (Optional)'',
      ''Static IP (Optional)'',
      ''IP Address (Optional)'',
      ''Passive IP (Optional)'']"

text \<open>
  The state of the loop of \<^verbatim>\<open>write_migration_csv\<close>: the set \<^verbatim>\<open>seen\<close> and the rows
  passed to \<^verbatim>\<open>writer.writerow\<close> so far, in call order.
\<close>

record writer =
  seen :: "(string \<times> int option) set"
  written :: "string list list"

text \<open>One iteration of \<^verbatim>\<open>for c in clients\<close>; each \<^verbatim>\<open>continue\<close> returns the state unchanged.\<close>

definition write_client :: "segment_map \<Rightarrow> writer \<Rightarrow> client \<Rightarrow> writer" where
  "write_client vlan_to_segment w c =
     (if \<not> truthy (switchport c) then w
      else
        let key = (mac c, vlan c) in
        if key \<in> seen w then w
        else
          let segment = dict_get vlan_to_segment (vlan c) '''' in
          w\<lparr>seen := insert key (seen w),
            written := written w @
              [[mac c, segment, '''', '''', '''', '''',
                ''Allow'', ''Imported from migration CSV'', ''No'', '''', ''No'']]\<rparr>)"

definition migration_rows :: "client list \<Rightarrow> segment_map \<Rightarrow> string list list" where
  "migration_rows clients vlan_to_segment =
     written (foldl (write_client vlan_to_segment)
                \<lparr>seen = {}, written = [header_row]\<rparr> clients)"

definition data_rows :: "client list \<Rightarrow> segment_map \<Rightarrow> string list list" where
  "data_rows clients vlan_to_segment = tl (migration_rows clients vlan_to_segment)"

subsection \<open>The text of the file\<close>

text \<open>
  Python's \<^verbatim>\<open>csv.writer\<close> with its default dialect: fields joined by a comma, a
  field quoted only when it contains the delimiter, the quote character or a line
  break (quotes doubled inside), every row ended by CR LF. The file is opened with
  \<^verbatim>\<open>newline=''\<close>, so the line ends reach the file unchanged.
\<close>

definition needs_quoting :: "string \<Rightarrow> bool" where
  "needs_quoting s = (\<exists>ch \<in> set s. ch \<in> {CHR '','', CHR 0x22, CHR 0x0D, CHR 0x0A})"

definition csv_field :: "string \<Rightarrow> string" where
  "csv_field s =
     (if needs_quoting s
      then [CHR 0x22] @ concat (map (\<lambda>ch. if ch = CHR 0x22 then [ch, ch] else [ch]) s) @ [CHR 0x22]
      else s)"

fun join_fields :: "string list \<Rightarrow> string" where
  "join_fields [] = []"
| "join_fields [f] = f"
| "join_fields (f # g # fs) = f @ '','' @ join_fields (g # fs)"

definition csv_line :: "string list \<Rightarrow> string" where
  "csv_line r = join_fields (map csv_field r)"

definition writerow :: "string list \<Rightarrow> string" where
  "writerow r = csv_line r @ [CHR 0x0D, CHR 0x0A]"

definition csv_text :: "string list list \<Rightarrow> string" where
  "csv_text rs = concat (map writerow rs)"

text \<open>
  The file system is a map from paths to contents; \<^verbatim>\<open>open(output_file, 'w')\<close>
  creates or overwrites the entry of \<^verbatim>\<open>output_file\<close>.
\<close>

type_synonym files = "string \<rightharpoonup> string"

definition write_migration_csv :: "client list \<Rightarrow> segment_map \<Rightarrow> string \<Rightarrow> files \<Rightarrow> files" where
  "write_migration_csv clients vlan_to_segment output_file fs =
     fs(output_file \<mapsto> csv_text (migration_rows clients vlan_to_segment))"

text \<open>The text of a file up to its first line break.\<close>

definition first_line :: "string \<Rightarrow> string" where
  "first_line s = takeWhile (\<lambda>ch. ch \<noteq> CHR 0x0D \<and> ch \<noteq> CHR 0x0A) s"

section \<open>Client Retriever\<close>

text \<open>
  An HTTP exchange. A request carries the URL, the header dictionary and the query
  parameter dictionary; a response either has a failing status (on which
  \<^verbatim>\<open>raise_for_status\<close> raises) or a JSON body.
\<close>

datatype pval = PInt int | PStr string

record request =
  url :: string
  headers :: "string \<rightharpoonup> string"
  params :: "string \<rightharpoonup> pval"

datatype 'a response = Status_Error | Json 'a

datatype 'a run = Out_Of_Fuel | Raised error | Returned 'a

text \<open>
  The loop \<^verbatim>\<open>while True\<close> of \<^verbatim>\<open>get_all_clients\<close>. The network is the sequence
  of responses the server gives, \<open>net k\<close> answering the request number \<open>k\<close>; the
  requests sent are logged in order. The loop has no bound of its own, so the model
  carries fuel, one unit per request, and \<open>Out_Of_Fuel\<close> stands for a run that is
  still requesting pages. \<^verbatim>\<open>batch[-1]\<close> is read only on a non-empty batch.
\<close>

fun get_all_clients_loop ::
  "nat \<Rightarrow> (nat \<Rightarrow> client list response) \<Rightarrow> int \<Rightarrow> request \<Rightarrow> client list \<Rightarrow>
   request list \<Rightarrow> client list run \<times> request list" where
  "get_all_clients_loop 0 net per_page req clients sent = (Out_Of_Fuel, sent)"
| "get_all_clients_loop (Suc fuel) net per_page req clients sent =
     (case net (length sent) of
        Status_Error \<Rightarrow> (Raised HTTPError, sent @ [req])
      | Json batch \<Rightarrow>
          if batch = [] then (Returned clients, sent @ [req])
          else if int (length batch) < per_page then (Returned (clients @ batch), sent @ [req])
          else
            let last_mac = mac (last batch) in
            get_all_clients_loop fuel net per_page
              (req\<lparr>params := (params req)(''startingAfter'' \<mapsto> PStr last_mac)\<rparr>)
              (clients @ batch) (sent @ [req]))"

definition base_url :: string where
  "base_url = ''https://api.meraki.com/api/v1''"

text \<open>The request as \<^verbatim>\<open>get_all_clients\<close> sets it up before the loop: the URL, the
  two headers and the parameters \<^verbatim>\<open>timespan\<close> and \<^verbatim>\<open>perPage\<close>.\<close>

definition clients_request :: "string \<Rightarrow> string \<Rightarrow> int \<Rightarrow> int \<Rightarrow> request" where
  "clients_request api_key network_id timespan per_page =
     \<lparr>url = base_url @ ''/networks/'' @ network_id @ ''/clients'',
      headers = [''X-Cisco-Meraki-API-Key'' \<mapsto> api_key,
                 ''Content-Type'' \<mapsto> ''application/json''],
      params = [''timespan'' \<mapsto> PInt timespan, ''perPage'' \<mapsto> PInt per_page]\<rparr>"

definition get_all_clients ::
  "nat \<Rightarrow> (nat \<Rightarrow> client list response) \<Rightarrow> string \<Rightarrow> string \<Rightarrow> int \<Rightarrow> int \<Rightarrow>
   client list run \<times> request list" where
  "get_all_clients fuel net api_key network_id timespan per_page =
     get_all_clients_loop fuel net per_page
       (clients_request api_key network_id timespan per_page) [] []"

section \<open>Segment Mapper\<close>

text \<open>
  What the program shows on standard output: a printed line, or the prompt of an
  \<^verbatim>\<open>input\<close> call, which then reads one line. The operator's lines are the sequence
  \<open>keyboard\<close>; \<open>consumed\<close> counts the lines read so far.
\<close>

datatype event = Print string | Prompt string

record console =
  transcript :: "event list"
  consumed :: nat

text \<open>
  \<^verbatim>\<open>sorted\<close> on a set of VLAN values. Integers are ordered numerically; comparing
  \<^verbatim>\<open>None\<close> with anything raises \<^verbatim>\<open>TypeError\<close>, which happens as soon as the
  set holds \<^verbatim>\<open>None\<close> and a second element.
\<close>

definition py_sorted :: "int option set \<Rightarrow> error + int option list" where
  "py_sorted vs =
     (if None \<in> vs then (if vs = {None} then Inr [None] else Inl TypeError)
      else Inr (map Some (sorted_list_of_set (Option.these vs))))"

definition vlan_str :: "int option \<Rightarrow> string" where
  "vlan_str v = (case v of None \<Rightarrow> ''None'' | Some i \<Rightarrow> str_int i)"

definition prompt_text :: "int option \<Rightarrow> string" where
  "prompt_text v = ''  VLAN '' @ vlan_str v @ '': Enter segment name: ''"

fun prompt_loop ::
  "(nat \<Rightarrow> string) \<Rightarrow> int option list \<Rightarrow> segment_map \<Rightarrow> console \<Rightarrow> segment_map \<times> console" where
  "prompt_loop keyboard [] mapping con = (mapping, con)"
| "prompt_loop keyboard (v # vs) mapping con =
     (let name = keyboard (consumed con) in
      prompt_loop keyboard vs (mapping(v \<mapsto> strip name))
        (con\<lparr>transcript := transcript con @ [Prompt (prompt_text v)],
             consumed := Suc (consumed con)\<rparr>))"

definition prompt_for_segments ::
  "int option set \<Rightarrow> (nat \<Rightarrow> string) \<Rightarrow> console \<Rightarrow> (error + segment_map) \<times> console" where
  "prompt_for_segments vlan_set keyboard con =
     (let con1 = con\<lparr>transcript := transcript con @ [Print ''Discovered VLANs:'']\<rparr> in
      case py_sorted vlan_set of
        Inl e \<Rightarrow> (Inl e, con1)
      | Inr vs \<Rightarrow>
          (case prompt_loop keyboard vs Map.empty con1 of
             (mapping, con2) \<Rightarrow> (Inr mapping, con2)))"

section \<open>Main program\<close>

record args =
  api_key :: string
  org_id :: string
  network_id :: string
  output' :: string
  timespan :: int

record network =
  net_id :: string

text \<open>The surroundings of one run: the answer to the organization request, the
  answers to the client requests, and the lines the operator types.\<close>

record env =
  org_networks :: "network list response"
  client_pages :: "nat \<Rightarrow> client list response"
  keyboard :: "nat \<Rightarrow> string"

text \<open>
  What a run leaves behind: the exception that ended it (\<open>None\<close> for a normal end),
  the standard output, the file system and the requests sent.
\<close>

record outcome =
  raised :: "error option"
  out :: "event list"
  disk :: files
  requested :: "request list"

text \<open>An uncaught exception and \<^verbatim>\<open>sys.exit\<close> with a message both end the process
  with status 1; \<^verbatim>\<open>sys.exit(message)\<close> writes the message to standard error.\<close>

definition exit_status :: "outcome \<Rightarrow> nat" where
  "exit_status r = (case raised r of None \<Rightarrow> 0 | Some e \<Rightarrow> 1)"

definition wired :: "client list \<Rightarrow> client list" where
  "wired all_clients = filter (\<lambda>c. truthy (switchport c)) all_clients"

definition unique_vlans :: "client list \<Rightarrow> int option set" where
  "unique_vlans wired_clients = set (map vlan (filter (\<lambda>c. vlan c \<noteq> None) wired_clients))"

definition main :: "nat \<Rightarrow> args \<Rightarrow> env \<Rightarrow> files \<Rightarrow> outcome option" where
  "main fuel a e fs =
     (let org_url = ''https://api.meraki.com/api/v1/organizations/'' @ org_id a @ ''/networks'';
          org_req = \<lparr>url = org_url,
                     headers = [''X-Cisco-Meraki-API-Key'' \<mapsto> api_key a],
                     params = Map.empty\<rparr>
      in
      case org_networks e of
        Status_Error \<Rightarrow>
          Some \<lparr>raised = Some HTTPError, out = [], disk = fs, requested = [org_req]\<rparr>
      | Json nets \<Rightarrow>
          if network_id a \<notin> set (map net_id nets) then
            Some \<lparr>raised = Some (SystemExit (''Error: Network '' @ network_id a @
                                  '' not found in organization '' @ org_id a)),
                  out = [], disk = fs, requested = [org_req]\<rparr>
          else
            let out1 = [Print ''Fetching all clients...''] in
            case get_all_clients fuel (client_pages e) (api_key a) (network_id a) (timespan a) 1000 of
              (Out_Of_Fuel, reqs) \<Rightarrow> None
            | (Raised err, reqs) \<Rightarrow>
                Some \<lparr>raised = Some err, out = out1, disk = fs, requested = org_req # reqs\<rparr>
            | (Returned all_clients, reqs) \<Rightarrow>
                let out2 = out1 @ [Print (''Total clients retrieved: '' @ str_nat (length all_clients))];
                    wired_clients = wired all_clients
                in
                case prompt_for_segments (unique_vlans wired_clients) (keyboard e)
                       \<lparr>transcript = out2, consumed = 0\<rparr> of
                  (Inl err, con) \<Rightarrow>
                    Some \<lparr>raised = Some err, out = transcript con, disk = fs, requested = org_req # reqs\<rparr>
                | (Inr vlan_to_segment, con) \<Rightarrow>
                    Some \<lparr>raised = None,
                          out = transcript con @
                            [Print ''Writing migration CSV...'',
                             Print (''Done '' @ [CHR 0xC3, CHR 0xA2, CHR 0xE2, CHR 0x82, CHR 0xAC,
                                                CHR 0xE2, CHR 0x80, CHR 0x9D] @
                                    '' migration CSV exported to '' @ output' a)],
                          disk = write_migration_csv wired_clients vlan_to_segment (output' a) fs,
                          requested = org_req # reqs\<rparr>)"

section \<open>Notions used to state the properties\<close>

text \<open>
  The deduplication key of a client, and the positions of a client list whose
  client is written: the client has a non-empty switchport and no earlier client
  with a non-empty switchport has the same key.
\<close>

definition dedup_key :: "client \<Rightarrow> string \<times> int option" where
  "dedup_key c = (mac c, vlan c)"

definition first_occurrence :: "client list \<Rightarrow> nat \<Rightarrow> bool" where
  "first_occurrence cs i =
     (truthy (switchport (cs ! i)) \<and>
      dedup_key (cs ! i) \<notin> set (map dedup_key (wired (take i cs))))"

definition written_indices :: "client list \<Rightarrow> nat list" where
  "written_indices cs = filter (first_occurrence cs) [0..<length cs]"

text \<open>The row built for a client, field by field.\<close>

definition row_of :: "segment_map \<Rightarrow> client \<Rightarrow> string list" where
  "row_of m c =
     [mac c, dict_get m (vlan c) '''', '''', '''', '''', '''',
      ''Allow'', ''Imported from migration CSV'', ''No'', '''', ''No'']"

text \<open>The clients that get a row when the loop starts with the set \<open>S\<close> of seen keys.\<close>

fun fresh :: "(string \<times> int option) set \<Rightarrow> client list \<Rightarrow> client list" where
  "fresh S [] = []"
| "fresh S (c # cs) =
     (if truthy (switchport c) \<and> dedup_key c \<notin> S then c # fresh (insert (dedup_key c) S) cs
      else fresh S cs)"

text \<open>A small client list: a duplicate pair, a wireless client, a client with no
  VLAN and a client with an empty switchport.\<close>

definition demo_clients :: "client list" where
  "demo_clients =
     [\<lparr>mac = ''X'', vlan = Some 5, switchport = Some ''1''\<rparr>,
      \<lparr>mac = ''W'', vlan = Some 5, switchport = None\<rparr>,
      \<lparr>mac = ''X'', vlan = Some 5, switchport = Some ''7''\<rparr>,
      \<lparr>mac = ''Y'', vlan = None, switchport = Some ''2''\<rparr>,
      \<lparr>mac = ''Z'', vlan = Some 6, switchport = Some ''''\<rparr>]"

text \<open>The wired client of the specification's scenario.\<close>

definition scenario_client :: client where
  "scenario_client = \<lparr>mac = ''00:11:22:33:44:55'', vlan = Some 10, switchport = Some ''1''\<rparr>"

text \<open>The header line as the csv writer renders it, and the header text as the
  specification prints it, with a blank after each comma.\<close>

definition header_text :: string where
  "header_text = ''MAC Address (Required),Segment (Required for allow state),Lock to Port (Optional),Site (Optional),Building (Optional),Floor (Optional),Allow or Deny (Required),Description (Optional),Static IP (Optional),IP Address (Optional),Passive IP (Optional)''"

definition spec_header_text :: string where
  "spec_header_text = ''MAC Address (Required), Segment (Required for allow state), Lock to Port (Optional), Site (Optional), Building (Optional), Floor (Optional), Allow or Deny (Required), Description (Optional), Static IP (Optional), IP Address (Optional), Passive IP (Optional)''"

text \<open>The records of a response; a failed response carries none.\<close>

definition body :: "'a list response \<Rightarrow> 'a list" where
  "body r = (case r of Status_Error \<Rightarrow> [] | Json b \<Rightarrow> b)"

text \<open>A full page: not empty and not shorter than \<^verbatim>\<open>per_page\<close>, so the loop goes on.\<close>

definition full_page :: "int \<Rightarrow> client list response \<Rightarrow> bool" where
  "full_page per_page r = (case r of Status_Error \<Rightarrow> False
                           | Json b \<Rightarrow> b \<noteq> [] \<and> \<not> int (length b) < per_page)"

text \<open>A last page: empty or shorter than \<^verbatim>\<open>per_page\<close>.\<close>

definition last_page :: "int \<Rightarrow> client list response \<Rightarrow> bool" where
  "last_page per_page r = (case r of Status_Error \<Rightarrow> False
                           | Json b \<Rightarrow> b = [] \<or> int (length b) < per_page)"

text \<open>Two short scripts of the server: pages of two, two and one records; and the
  scenario of a page of 1000 records ending in the MAC AA:BB:CC:00:00:01 followed by
  a page of 200 records.\<close>

definition three_pages :: "nat \<Rightarrow> client list response" where
  "three_pages k =
     (if k < 2 then Json [scenario_client, scenario_client] else Json [scenario_client])"

definition two_pages :: "nat \<Rightarrow> client list response" where
  "two_pages k =
     (if k = 0 then
        Json (replicate 999 scenario_client @
              [\<lparr>mac = ''AA:BB:CC:00:00:01'', vlan = Some 10, switchport = None\<rparr>])
      else if k = 1 then Json (replicate 200 scenario_client)
      else Json [])"

text \<open>A run of the whole program: the organization has the networks N1 and N2, the
  server answers every client request with the five clients of \<open>demo_clients\<close>, and
  the operator types " Eng " at every prompt.\<close>

definition demo_args :: args where
  "demo_args = \<lparr>api_key = ''key'', org_id = ''O1'', network_id = ''N1'',
                 output' = ''migration_clients.csv'', timespan = 86400\<rparr>"

definition demo_env :: env where
  "demo_env = \<lparr>org_networks = Json [\<lparr>net_id = ''N1''\<rparr>, \<lparr>net_id = ''N2''\<rparr>],
                client_pages = (\<lambda>k. Json demo_clients),
                keyboard = (\<lambda>k. '' Eng '')\<rparr>"

section \<open>Properties of the CSV Writer\<close>

lemma write_client_step:
  "write_client m w c =
     (if truthy (switchport c) \<and> dedup_key c \<notin> seen w
      then w\<lparr>seen := insert (dedup_key c) (seen w), written := written w @ [row_of m c]\<rparr>
      else w)"
  by (simp add: write_client_def dedup_key_def row_of_def Let_def)

lemma foldl_write_client:
  "foldl (write_client m) w cs =
     w\<lparr>seen := seen w \<union> dedup_key ` set (wired cs),
       written := written w @ map (row_of m) (fresh (seen w) cs)\<rparr>"
proof (induction cs arbitrary: w)
  case Nil
  show ?case by (simp add: wired_def)
next
  case (Cons c cs)
  have "foldl (write_client m) w (c # cs) = foldl (write_client m) (write_client m w c) cs"
    by simp
  also have "\<dots> = w\<lparr>seen := seen w \<union> dedup_key ` set (wired (c # cs)),
       written := written w @ map (row_of m) (fresh (seen w) (c # cs))\<rparr>"
    unfolding Cons.IH write_client_step
    by (auto simp: wired_def intro!: writer.equality)
  finally show ?case .
qed

lemma migration_rows_fresh:
  "migration_rows cs m = header_row # map (row_of m) (fresh {} cs)"
  by (simp add: migration_rows_def foldl_write_client)

lemma wired_take_keys:
  "(k \<in> dedup_key ` set (wired (take i cs))) =
   (\<exists>j<i. j < length cs \<and> truthy (switchport (cs ! j)) \<and> dedup_key (cs ! j) = k)"
  by (auto simp: wired_def in_set_conv_nth image_iff)

lemma fresh_indices:
  "fresh S cs =
     map (nth cs) (filter (\<lambda>i. truthy (switchport (cs ! i)) \<and> dedup_key (cs ! i) \<notin> S \<and>
        (\<forall>j<i. truthy (switchport (cs ! j)) \<longrightarrow> dedup_key (cs ! j) \<noteq> dedup_key (cs ! i))) [0..<length cs])"
proof (induction cs arbitrary: S)
  case Nil
  show ?case by simp
next
  case (Cons c cs)
  have upt: "[0..<length (c # cs)] = 0 # map Suc [0..<length cs]"
    by (simp add: upt_conv_Cons map_Suc_upt del: upt_Suc)
  show ?case
    unfolding upt
    by (auto simp: Cons.IH filter_map o_def All_less_Suc2 intro!: filter_cong arg_cong2[where f=map])
qed

lemma fresh_written_indices: "fresh {} cs = map (nth cs) (written_indices cs)"
proof -
  have "filter (first_occurrence cs) [0..<length cs] =
        filter (\<lambda>i. truthy (switchport (cs ! i)) \<and> dedup_key (cs ! i) \<notin> {} \<and>
        (\<forall>j<i. truthy (switchport (cs ! j)) \<longrightarrow> dedup_key (cs ! j) \<noteq> dedup_key (cs ! i))) [0..<length cs]"
    by (rule filter_cong) (auto simp: first_occurrence_def wired_take_keys)
  then show ?thesis
    by (simp add: fresh_indices written_indices_def)
qed

lemma migration_rows_indices:
  "migration_rows cs m = header_row # map (\<lambda>i. row_of m (cs ! i)) (written_indices cs)"
  by (simp add: migration_rows_fresh fresh_written_indices o_def)

lemma fresh_distinct:
  "distinct (map dedup_key (fresh S cs)) \<and> set (map dedup_key (fresh S cs)) \<inter> S = {}"
proof (induction cs arbitrary: S)
  case Nil
  show ?case by simp
next
  case (Cons c cs)
  show ?case
    using Cons.IH [of S] Cons.IH [of "insert (dedup_key c) S"] by auto
qed

lemma fresh_set:
  "set (fresh S cs) \<subseteq> set (wired cs)"
  by (induction cs arbitrary: S) (auto simp: wired_def)

lemma fresh_keys:
  "dedup_key ` set (fresh S cs) = dedup_key ` set (wired cs) - S"
  by (induction cs arbitrary: S) (auto simp: wired_def)

lemma first_occurrence_exists:
  assumes "i < length cs" "truthy (switchport (cs ! i))"
  shows "\<exists>j \<in> set (written_indices cs). j \<le> i \<and> dedup_key (cs ! j) = dedup_key (cs ! i)"
proof -
  define P where "P j = (truthy (switchport (cs ! j)) \<and> dedup_key (cs ! j) = dedup_key (cs ! i))" for j
  define j where "j = (LEAST j. P j)"
  have Pi: "P i" using assms by (simp add: P_def)
  have Pj: "P j" unfolding j_def using Pi by (rule LeastI)
  have le: "j \<le> i" unfolding j_def using Pi by (rule Least_le)
  have least: "\<not> P k" if "k < j" for k using that not_less_Least unfolding j_def by blast
  have "first_occurrence cs j"
    using Pj least le assms(1) by (auto simp: first_occurrence_def wired_take_keys P_def)
  then have "j \<in> set (written_indices cs)"
    using le assms(1) by (simp add: written_indices_def)
  then show ?thesis using le Pj by (auto simp: P_def)
qed

lemma demo_indices: "written_indices demo_clients = [0, 3]"
  by (simp add: written_indices_def first_occurrence_def demo_clients_def wired_def
        truthy_def dedup_key_def upt_rec)

text \<open>
  C1. For every client list and every mapping, the rows written after the header are
  the rows of the clients at the positions \<open>written_indices\<close>, in ascending
  position, that is in retrieval order. The keys (MAC, VLAN) at these positions are
  pairwise different, so no pair has two rows; and every client with a non-empty
  switchport has its key written from a position not after its own, the first one
  holding that key.
\<close>

theorem csv_one_row_per_key_first_wins:
  "migration_rows cs m = header_row # map (\<lambda>i. row_of m (cs ! i)) (written_indices cs)
   \<and> distinct (map (\<lambda>i. dedup_key (cs ! i)) (written_indices cs))
   \<and> sorted_wrt (<) (written_indices cs)
   \<and> (\<forall>i<length cs. truthy (switchport (cs ! i)) \<longrightarrow>
        (\<exists>j \<in> set (written_indices cs). j \<le> i \<and> dedup_key (cs ! j) = dedup_key (cs ! i)))"
proof -
  have "distinct (map dedup_key (map (nth cs) (written_indices cs)))"
    using fresh_distinct [of "{}" cs] by (simp add: fresh_written_indices)
  then have d: "distinct (map (\<lambda>i. dedup_key (cs ! i)) (written_indices cs))"
    by (simp add: o_def)
  have s: "sorted_wrt (<) (written_indices cs)"
    unfolding written_indices_def by (rule sorted_wrt_filter) (rule sorted_wrt_upt)
  show ?thesis
    using d s migration_rows_indices first_occurrence_exists by blast
qed

theorem csv_one_row_per_key_first_wins_witness:
  "migration_rows demo_clients [Some 5 \<mapsto> ''Eng''] =
     [header_row,
      [''X'', ''Eng'', '''', '''', '''', '''', ''Allow'', ''Imported from migration CSV'', ''No'', '''', ''No''],
      [''Y'', '''', '''', '''', '''', '''', ''Allow'', ''Imported from migration CSV'', ''No'', '''', ''No'']]
   \<and> written_indices demo_clients = [0, 3]"
  using csv_one_row_per_key_first_wins [of demo_clients "[Some 5 \<mapsto> ''Eng'']"]
  by (simp add: demo_indices) (simp add: demo_clients_def row_of_def dict_get_def)

lemma truthy_iff: "truthy v = (\<exists>s. v = Some s \<and> s \<noteq> [])"
  by (cases v) (simp_all add: truthy_def)

lemma fresh_wired: "fresh S (wired cs) = fresh S cs"
  by (induction cs arbitrary: S) (simp_all add: wired_def)

lemma length_fresh: "length (fresh S cs) \<le> length (wired cs)"
  by (induction cs arbitrary: S) (auto simp: wired_def le_SucI)

lemma data_rows_fresh: "data_rows cs m = map (row_of m) (fresh {} cs)"
  by (simp add: data_rows_def migration_rows_fresh)

lemma data_rows_indices:
  "data_rows cs m = map (\<lambda>i. row_of m (cs ! i)) (written_indices cs)"
  by (simp add: data_rows_def migration_rows_indices)

lemma row_of_key: "dedup_key d = dedup_key c \<Longrightarrow> row_of m d = row_of m c"
  by (simp add: dedup_key_def row_of_def)

lemma wired_row_written:
  assumes "c \<in> set cs" "truthy (switchport c)"
  shows "row_of m c \<in> set (data_rows cs m)"
proof -
  have "c \<in> set (wired cs)" using assms by (simp add: wired_def)
  then have "dedup_key c \<in> dedup_key ` set (fresh {} cs)"
    by (simp add: fresh_keys)
  then obtain d where d: "d \<in> set (fresh {} cs)" "dedup_key d = dedup_key c"
    by auto
  have "row_of m d \<in> row_of m ` set (fresh {} cs)"
    using d(1) by (rule imageI)
  then show ?thesis
    using row_of_key [OF d(2), of m] by (simp add: data_rows_fresh)
qed

text \<open>
  C2. A client whose switchport is absent or empty leaves the writer unchanged, and
  an iteration that writes a row has a client with a non-empty switchport. For the
  whole list: the file is the one written from the wired clients alone, there are no
  more data rows than wired clients, and every data row is the row of a client of
  the list with a non-empty switchport.
\<close>

theorem csv_rows_only_for_switchport:
  "(switchport c = None \<or> switchport c = Some [] \<longrightarrow> write_client m w c = w)
   \<and> (written (write_client m w c) \<noteq> written w \<longrightarrow> (\<exists>s. switchport c = Some s \<and> s \<noteq> []))
   \<and> migration_rows cs m = migration_rows (wired cs) m
   \<and> length (data_rows cs m) \<le> length (wired cs)
   \<and> (\<forall>r \<in> set (data_rows cs m).
         \<exists>d \<in> set cs. (\<exists>s. switchport d = Some s \<and> s \<noteq> []) \<and> r = row_of m d)"
proof -
  have a: "switchport c = None \<or> switchport c = Some [] \<longrightarrow> write_client m w c = w"
    by (auto simp: write_client_def truthy_def)
  have b: "written (write_client m w c) \<noteq> written w \<longrightarrow> (\<exists>s. switchport c = Some s \<and> s \<noteq> [])"
    by (auto simp: write_client_step truthy_iff split: if_splits)
  have c: "migration_rows cs m = migration_rows (wired cs) m"
    by (simp add: migration_rows_fresh fresh_wired)
  have d: "length (data_rows cs m) \<le> length (wired cs)"
    by (simp add: data_rows_fresh length_fresh)
  have e: "\<forall>r \<in> set (data_rows cs m).
         \<exists>d \<in> set cs. (\<exists>s. switchport d = Some s \<and> s \<noteq> []) \<and> r = row_of m d"
    using fresh_set [of "{}" cs] by (fastforce simp: data_rows_fresh wired_def truthy_iff)
  from a b c d e show ?thesis by blast
qed

theorem csv_rows_only_for_switchport_witness:
  "write_client Map.empty \<lparr>seen = {}, written = [header_row]\<rparr>
      \<lparr>mac = ''W'', vlan = Some 5, switchport = None\<rparr> = \<lparr>seen = {}, written = [header_row]\<rparr>
   \<and> write_client Map.empty \<lparr>seen = {}, written = [header_row]\<rparr>
      \<lparr>mac = ''Z'', vlan = Some 6, switchport = Some ''''\<rparr> = \<lparr>seen = {}, written = [header_row]\<rparr>
   \<and> data_rows demo_clients Map.empty = data_rows (wired demo_clients) Map.empty
   \<and> length (data_rows demo_clients Map.empty) = 2
   \<and> length (wired demo_clients) = 3"
  using csv_rows_only_for_switchport
          [of "\<lparr>mac = ''W'', vlan = Some 5, switchport = None\<rparr>" Map.empty
              "\<lparr>seen = {}, written = [header_row]\<rparr>" demo_clients]
        csv_rows_only_for_switchport
          [of "\<lparr>mac = ''Z'', vlan = Some 6, switchport = Some ''''\<rparr>" Map.empty
              "\<lparr>seen = {}, written = [header_row]\<rparr>" demo_clients]
  by (simp add: data_rows_def)
     (simp add: demo_clients_def wired_def truthy_def migration_rows_def write_client_def
        Let_def dict_get_def)

text \<open>
  C3. The data row number \<open>k\<close> carries the MAC of the client at the written position
  number \<open>k\<close> and, as its segment, the mapping's value for that client's VLAN, or the
  empty string when the mapping has no entry for it. So every client with a non-empty
  switchport has a row with its MAC and that segment; the segment is empty when its
  VLAN is not a key of the mapping, in particular when the client has no VLAN and
  \<^verbatim>\<open>None\<close> is not a key.
\<close>

theorem csv_segment_lookup:
  "length (data_rows cs m) = length (written_indices cs)
   \<and> (\<forall>k<length (written_indices cs).
         data_rows cs m ! k ! 0 = mac (cs ! (written_indices cs ! k)) \<and>
         data_rows cs m ! k ! 1 =
           (case m (vlan (cs ! (written_indices cs ! k))) of None \<Rightarrow> '''' | Some s \<Rightarrow> s))
   \<and> (c \<in> set cs \<and> truthy (switchport c) \<longrightarrow>
         (\<exists>r \<in> set (data_rows cs m). r ! 0 = mac c \<and>
            r ! 1 = (case m (vlan c) of None \<Rightarrow> '''' | Some s \<Rightarrow> s)))
   \<and> (c \<in> set cs \<and> truthy (switchport c) \<and> vlan c \<notin> dom m \<longrightarrow>
         (\<exists>r \<in> set (data_rows cs m). r ! 0 = mac c \<and> r ! 1 = ''''))
   \<and> (c \<in> set cs \<and> truthy (switchport c) \<and> vlan c = None \<and> None \<notin> dom m \<longrightarrow>
         (\<exists>r \<in> set (data_rows cs m). r ! 0 = mac c \<and> r ! 1 = ''''))"
proof -
  have a: "length (data_rows cs m) = length (written_indices cs)"
    by (simp add: data_rows_indices)
  have b: "\<forall>k<length (written_indices cs).
         data_rows cs m ! k ! 0 = mac (cs ! (written_indices cs ! k)) \<and>
         data_rows cs m ! k ! 1 =
           (case m (vlan (cs ! (written_indices cs ! k))) of None \<Rightarrow> '''' | Some s \<Rightarrow> s)"
    by (simp add: data_rows_indices row_of_def dict_get_def)
  have c: "\<exists>r \<in> set (data_rows cs m). r ! 0 = mac c \<and>
            r ! 1 = (case m (vlan c) of None \<Rightarrow> '''' | Some s \<Rightarrow> s)"
    if "c \<in> set cs" "truthy (switchport c)"
    using wired_row_written [OF that, of m]
    by (intro bexI [where x = "row_of m c"]) (simp_all add: row_of_def dict_get_def)
  have d: "\<exists>r \<in> set (data_rows cs m). r ! 0 = mac c \<and> r ! 1 = ''''"
    if "c \<in> set cs" "truthy (switchport c)" "vlan c \<notin> dom m"
    using c [OF that(1,2)] that(3) by (auto simp: domIff)
  show ?thesis
    apply (intro conjI impI)
    subgoal by (rule a)
    subgoal by (rule b)
    subgoal using c by blast
    subgoal using d by blast
    subgoal by (elim conjE, rule d) simp_all
    done
qed

theorem csv_segment_lookup_witness:
  "data_rows demo_clients [Some 5 \<mapsto> ''Eng''] ! 0 ! 1 = ''Eng''
   \<and> data_rows demo_clients [Some 5 \<mapsto> ''Eng''] ! 1 ! 0 = ''Y''
   \<and> data_rows demo_clients [Some 5 \<mapsto> ''Eng''] ! 1 ! 1 = ''''
   \<and> length (data_rows demo_clients [Some 5 \<mapsto> ''Eng'']) = 2
   \<and> (\<exists>r \<in> set (data_rows demo_clients [Some 5 \<mapsto> ''Eng'']). r ! 0 = ''Y'' \<and> r ! 1 = '''')"
proof -
  let ?c = "\<lparr>mac = ''Y'', vlan = None, switchport = Some ''2''\<rparr>"
  let ?m = "[Some (5::int) \<mapsto> ''Eng'']"
  have h: "?c \<in> set demo_clients \<and> truthy (switchport ?c) \<and> vlan ?c = None \<and> None \<notin> dom ?m"
    by (simp add: demo_clients_def truthy_def)
  show ?thesis
    using csv_segment_lookup [of demo_clients ?m ?c] h
    by (simp add: demo_indices) (simp add: demo_clients_def)
qed

lemma data_rows_single:
  "truthy (switchport c) \<Longrightarrow> data_rows [c] m = [row_of m c]"
  by (simp add: data_rows_fresh)

text \<open>
  C4. The data row number \<open>k\<close> is the list of eleven fields: the MAC of its client,
  the segment looked up for the client's VLAN, four empty strings, "Allow",
  "Imported from migration CSV", "No", an empty string and "No". A single wired
  client yields exactly that row, and the client of the scenario under the mapping
  of 10 to "Engineering" yields the line
  \<^verbatim>\<open>00:11:22:33:44:55,Engineering,,,,,Allow,Imported from migration CSV,No,,No\<close>.
\<close>

theorem csv_row_fields:
  "(\<forall>k<length (data_rows cs m).
      data_rows cs m ! k =
        [mac (cs ! (written_indices cs ! k)),
         dict_get m (vlan (cs ! (written_indices cs ! k))) '''',
         '''', '''', '''', '''', ''Allow'', ''Imported from migration CSV'', ''No'', '''', ''No''])
   \<and> (\<forall>r \<in> set (data_rows cs m).
        length r = 11 \<and> r ! 2 = '''' \<and> r ! 3 = '''' \<and> r ! 4 = '''' \<and> r ! 5 = '''' \<and>
        r ! 6 = ''Allow'' \<and> r ! 7 = ''Imported from migration CSV'' \<and> r ! 8 = ''No'' \<and>
        r ! 9 = '''' \<and> r ! 10 = ''No'')
   \<and> (truthy (switchport c) \<longrightarrow>
        data_rows [c] m =
          [[mac c, dict_get m (vlan c) '''', '''', '''', '''', '''',
            ''Allow'', ''Imported from migration CSV'', ''No'', '''', ''No'']])
   \<and> map csv_line (data_rows [scenario_client] [Some 10 \<mapsto> ''Engineering'']) =
        [''00:11:22:33:44:55,Engineering,,,,,Allow,Imported from migration CSV,No,,No'']"
proof -
  have a: "\<forall>k<length (data_rows cs m).
      data_rows cs m ! k =
        [mac (cs ! (written_indices cs ! k)),
         dict_get m (vlan (cs ! (written_indices cs ! k))) '''',
         '''', '''', '''', '''', ''Allow'', ''Imported from migration CSV'', ''No'', '''', ''No'']"
    by (simp add: data_rows_indices row_of_def)
  have b: "\<forall>r \<in> set (data_rows cs m).
        length r = 11 \<and> r ! 2 = '''' \<and> r ! 3 = '''' \<and> r ! 4 = '''' \<and> r ! 5 = '''' \<and>
        r ! 6 = ''Allow'' \<and> r ! 7 = ''Imported from migration CSV'' \<and> r ! 8 = ''No'' \<and>
        r ! 9 = '''' \<and> r ! 10 = ''No''"
    by (auto simp: data_rows_fresh row_of_def)
  have c: "truthy (switchport c) \<longrightarrow>
        data_rows [c] m =
          [[mac c, dict_get m (vlan c) '''', '''', '''', '''', '''',
            ''Allow'', ''Imported from migration CSV'', ''No'', '''', ''No'']]"
    by (simp add: data_rows_single row_of_def)
  have d: "map csv_line (data_rows [scenario_client] [Some 10 \<mapsto> ''Engineering'']) =
        [''00:11:22:33:44:55,Engineering,,,,,Allow,Imported from migration CSV,No,,No'']"
    by (simp add: data_rows_fresh scenario_client_def truthy_def row_of_def dict_get_def
          csv_line_def csv_field_def needs_quoting_def)
  from a b c d show ?thesis by (intro conjI)
qed

theorem csv_row_fields_witness:
  "truthy (switchport scenario_client)
   \<and> data_rows [scenario_client] [Some 10 \<mapsto> ''Engineering''] =
       [[''00:11:22:33:44:55'', ''Engineering'', '''', '''', '''', '''',
         ''Allow'', ''Imported from migration CSV'', ''No'', '''', ''No'']]
   \<and> length (data_rows [scenario_client] [Some 10 \<mapsto> ''Engineering''] ! 0) = 11"
proof -
  have h: "truthy (switchport scenario_client)"
    by (simp add: scenario_client_def truthy_def)
  show ?thesis
    using h csv_row_fields [of "[scenario_client]" "[Some 10 \<mapsto> ''Engineering'']" scenario_client]
    by (simp add: dict_get_def) (simp add: scenario_client_def)
qed

lemma csv_line_header: "csv_line header_row = header_text"
  by (simp add: csv_line_def header_row_def header_text_def csv_field_def needs_quoting_def)

lemma first_line_header: "first_line (header_text @ CHR 0x0D # rest) = header_text"
  by (simp add: first_line_def header_text_def)

lemma csv_text_migration_rows:
  "csv_text (migration_rows cs m) = header_text @ [CHR 0x0D, CHR 0x0A] @ csv_text (data_rows cs m)"
  by (simp add: migration_rows_fresh data_rows_fresh csv_text_def writerow_def csv_line_header)

section \<open>Properties of the Client Retriever\<close>

lemma loop_stops:
  assumes "\<forall>k<n. full_page per_page (net (length sent + k))"
    and "last_page per_page (net (length sent + n))"
    and "n < fuel"
  shows "\<exists>reqs. get_all_clients_loop fuel net per_page req clients sent =
           (Returned (clients @ concat (map (\<lambda>k. body (net k)) [length sent..<length sent + Suc n])), reqs)
         \<and> length reqs = length sent + Suc n"
  using assms
proof (induction n arbitrary: fuel req clients sent)
  case 0
  then obtain f where f: "fuel = Suc f" by (cases fuel) auto
  from 0 show ?case
    by (auto simp: f last_page_def body_def split: response.splits)
next
  case (Suc n)
  then obtain f where f: "fuel = Suc f" and nf: "n < f" by (cases fuel) auto
  from Suc.prems(1) have full0: "full_page per_page (net (length sent))"
    by (metis add.right_neutral zero_less_Suc)
  then obtain b where b: "net (length sent) = Json b" "b \<noteq> []" "\<not> int (length b) < per_page"
    by (auto simp: full_page_def split: response.splits)
  let ?req = "req\<lparr>params := (params req)(''startingAfter'' \<mapsto> PStr (mac (last b)))\<rparr>"
  let ?sent = "sent @ [req]"
  have 1: "\<forall>k<n. full_page per_page (net (length ?sent + k))"
    using Suc.prems(1) by auto
  have 2: "last_page per_page (net (length ?sent + n))"
    using Suc.prems(2) by simp
  from Suc.IH [OF 1 2 nf, of ?req "clients @ b"]
  obtain reqs where r: "get_all_clients_loop f net per_page ?req (clients @ b) ?sent =
      (Returned ((clients @ b) @ concat (map (\<lambda>k. body (net k)) [length ?sent..<length ?sent + Suc n])), reqs)"
      "length reqs = length ?sent + Suc n"
    by blast
  have upt: "[length sent..<length sent + Suc (Suc n)] = length sent # [length ?sent..<length ?sent + Suc n]"
    by (simp add: upt_conv_Cons del: upt_Suc)
  show ?case
    unfolding upt using r b by (simp add: f body_def Let_def del: upt_Suc)
qed

lemma loop_requests:
  "get_all_clients_loop fuel net per_page req clients sent = (res, reqs) \<Longrightarrow>
   \<exists>extra. reqs = sent @ extra \<and> (extra \<noteq> [] \<longrightarrow> extra ! 0 = req) \<and>
     (\<forall>k. Suc k < length extra \<longrightarrow>
        (\<exists>b. net (length sent + k) = Json b \<and> b \<noteq> [] \<and> \<not> int (length b) < per_page \<and>
             extra ! Suc k = req\<lparr>params := (params req)(''startingAfter'' \<mapsto> PStr (mac (last b)))\<rparr>))"
proof (induction fuel arbitrary: req clients sent)
  case 0
  then show ?case by simp
next
  case (Suc fuel)
  show ?case
  proof (cases "full_page per_page (net (length sent))")
    case False
    then have "reqs = sent @ [req]"
      using Suc.prems by (auto simp: full_page_def split: response.splits if_splits)
    then show ?thesis by simp
  next
    case True
    then obtain b where b: "net (length sent) = Json b" "b \<noteq> []" "\<not> int (length b) < per_page"
      by (auto simp: full_page_def split: response.splits)
    let ?req = "req\<lparr>params := (params req)(''startingAfter'' \<mapsto> PStr (mac (last b)))\<rparr>"
    have "get_all_clients_loop fuel net per_page ?req (clients @ b) (sent @ [req]) = (res, reqs)"
      using Suc.prems b by (simp add: Let_def)
    from Suc.IH [OF this] obtain extra where e: "reqs = (sent @ [req]) @ extra"
      "extra \<noteq> [] \<longrightarrow> extra ! 0 = ?req"
      "\<forall>k. Suc k < length extra \<longrightarrow>
        (\<exists>c. net (length (sent @ [req]) + k) = Json c \<and> c \<noteq> [] \<and> \<not> int (length c) < per_page \<and>
             extra ! Suc k = ?req\<lparr>params := (params ?req)(''startingAfter'' \<mapsto> PStr (mac (last c)))\<rparr>)"
      by blast
    have "\<exists>c. net (length sent + k) = Json c \<and> c \<noteq> [] \<and> \<not> int (length c) < per_page \<and>
             (req # extra) ! Suc k = req\<lparr>params := (params req)(''startingAfter'' \<mapsto> PStr (mac (last c)))\<rparr>"
      if "Suc k < length (req # extra)" for k
    proof (cases k)
      case 0
      then show ?thesis using that e(2) b by auto
    next
      case (Suc j)
      then have "Suc j < length extra" using that by simp
      with e(3) obtain c where "net (length (sent @ [req]) + j) = Json c" "c \<noteq> []"
        "\<not> int (length c) < per_page"
        "extra ! Suc j = ?req\<lparr>params := (params ?req)(''startingAfter'' \<mapsto> PStr (mac (last c)))\<rparr>"
        by blast
      then show ?thesis using Suc by simp
    qed
    then have C: "\<forall>k. Suc k < length (req # extra) \<longrightarrow>
        (\<exists>c. net (length sent + k) = Json c \<and> c \<noteq> [] \<and> \<not> int (length c) < per_page \<and>
             (req # extra) ! Suc k = req\<lparr>params := (params req)(''startingAfter'' \<mapsto> PStr (mac (last c)))\<rparr>)"
      by blast
    have A: "reqs = sent @ (req # extra)" using e(1) by simp
    have B: "req # extra \<noteq> [] \<longrightarrow> (req # extra) ! 0 = req" by simp
    from A B C show ?thesis by blast
  qed
qed

lemma loop_continues:
  "\<forall>k<fuel. full_page per_page (net (length sent + k)) \<Longrightarrow>
   \<exists>reqs. get_all_clients_loop fuel net per_page req clients sent = (Out_Of_Fuel, reqs)
          \<and> length reqs = length sent + fuel"
proof (induction fuel arbitrary: req clients sent)
  case 0
  show ?case by simp
next
  case (Suc fuel)
  from Suc.prems have "full_page per_page (net (length sent))"
    by (metis add.right_neutral zero_less_Suc)
  then obtain b where b: "net (length sent) = Json b" "b \<noteq> []" "\<not> int (length b) < per_page"
    by (auto simp: full_page_def split: response.splits)
  have 1: "\<forall>k<fuel. full_page per_page (net (length (sent @ [req]) + k))"
    using Suc.prems by auto
  from Suc.IH [OF 1] show ?case
    using b by (simp add: Let_def)
qed

text \<open>
  C5. When the pages before number \<open>n\<close> are all full and page \<open>n\<close> is empty or
  shorter than \<^verbatim>\<open>per_page\<close>, the retriever returns as soon as it may send more
  than \<open>n\<close> requests: it has sent exactly \<open>n + 1\<close> of them and returns the pages
  \<open>0\<close> to \<open>n\<close> concatenated in that order. It does not stop earlier: allowed
  only \<open>n\<close> requests or fewer, it is still asking.
\<close>

theorem retriever_stops_at_short_page:
  assumes "\<forall>k<n. full_page per_page (net k)"
    and "last_page per_page (net n)"
  shows "(n < fuel \<longrightarrow>
           (\<exists>reqs. get_all_clients fuel net ak nid ts per_page =
                     (Returned (concat (map (\<lambda>k. body (net k)) [0..<Suc n])), reqs)
                   \<and> length reqs = Suc n))
         \<and> (fuel \<le> n \<longrightarrow>
           (\<exists>reqs. get_all_clients fuel net ak nid ts per_page = (Out_Of_Fuel, reqs)
                   \<and> length reqs = fuel))"
proof (intro conjI impI)
  assume "n < fuel"
  with assms loop_stops [of n per_page net "[]" fuel "clients_request ak nid ts per_page" "[]"]
  show "\<exists>reqs. get_all_clients fuel net ak nid ts per_page =
                     (Returned (concat (map (\<lambda>k. body (net k)) [0..<Suc n])), reqs)
                   \<and> length reqs = Suc n"
    by (simp add: get_all_clients_def del: upt_Suc)
next
  assume "fuel \<le> n"
  with assms(1) have "\<forall>k<fuel. full_page per_page (net (length ([]::request list) + k))"
    by simp
  from loop_continues [OF this, of "clients_request ak nid ts per_page" "[]"]
  show "\<exists>reqs. get_all_clients fuel net ak nid ts per_page = (Out_Of_Fuel, reqs)
                   \<and> length reqs = fuel"
    by (simp add: get_all_clients_def)
qed

theorem retriever_stops_at_short_page_witness:
  "full_page 2 (three_pages 0) \<and> full_page 2 (three_pages 1) \<and> last_page 2 (three_pages 2)
   \<and> (\<exists>reqs. get_all_clients 5 three_pages ''key'' ''N1'' 86400 2 =
         (Returned [scenario_client, scenario_client, scenario_client, scenario_client,
                    scenario_client], reqs)
        \<and> length reqs = 3)
   \<and> (\<exists>reqs. get_all_clients 2 three_pages ''key'' ''N1'' 86400 2 = (Out_Of_Fuel, reqs)
        \<and> length reqs = 2)"
proof -
  have h1: "\<forall>k<2. full_page 2 (three_pages k)"
    by (simp add: full_page_def three_pages_def)
  have h2: "last_page 2 (three_pages 2)"
    by (simp add: last_page_def three_pages_def)
  have c: "concat (map (\<lambda>k. body (three_pages k)) [0..<3]) =
     [scenario_client, scenario_client, scenario_client, scenario_client, scenario_client]"
    by (simp add: upt_rec body_def three_pages_def)
  have h3: "full_page 2 (three_pages 0) \<and> full_page 2 (three_pages 1)"
    by (simp add: full_page_def three_pages_def)
  show ?thesis
    using h2 h3
      retriever_stops_at_short_page [OF h1 h2, of 5 "''key''" "''N1''" 86400]
      retriever_stops_at_short_page [OF h1 h2, of 2 "''key''" "''N1''" 86400]
    by (simp add: c del: upt_Suc)
qed

text \<open>
  C6. In every run of the retriever, whatever the server answers and however long
  the run is followed, the first request is the one set up before the loop, with no
  \<^verbatim>\<open>startingAfter\<close>, and every later request follows a full page and is that
  request with \<^verbatim>\<open>startingAfter\<close> set to the MAC of the last record of the page
  fetched just before. In the scenario of a page of 1000 records ending in
  AA:BB:CC:00:00:01 and a page of 200 records, exactly 2 requests are sent, the
  second with \<^verbatim>\<open>startingAfter=AA:BB:CC:00:00:01\<close>, and 1200 records are returned.
\<close>

theorem retriever_cursor_is_last_mac:
  "(get_all_clients fuel net ak nid ts per_page = (res, reqs) \<longrightarrow>
      (reqs \<noteq> [] \<longrightarrow> reqs ! 0 = clients_request ak nid ts per_page) \<and>
      (\<forall>k. Suc k < length reqs \<longrightarrow>
         (\<exists>b. net k = Json b \<and> b \<noteq> [] \<and> \<not> int (length b) < per_page \<and>
              reqs ! Suc k =
                (clients_request ak nid ts per_page)
                  \<lparr>params := (params (clients_request ak nid ts per_page))
                                (''startingAfter'' \<mapsto> PStr (mac (last b)))\<rparr>)))
   \<and> params (clients_request ak nid ts per_page) ''startingAfter'' = None
   \<and> (2 \<le> fuel \<longrightarrow>
        (\<exists>cs rs. get_all_clients fuel two_pages ak nid ts 1000 = (Returned cs, rs) \<and>
           length rs = 2 \<and>
           params (rs ! 1) ''startingAfter'' = Some (PStr ''AA:BB:CC:00:00:01'') \<and>
           length cs = 1200))"
proof (intro conjI impI)
  assume run: "get_all_clients fuel net ak nid ts per_page = (res, reqs)"
  from loop_requests [OF run [unfolded get_all_clients_def]]
  obtain extra where e: "reqs = [] @ extra"
    "extra \<noteq> [] \<longrightarrow> extra ! 0 = clients_request ak nid ts per_page"
    "\<forall>k. Suc k < length extra \<longrightarrow>
        (\<exists>b. net (length ([]::request list) + k) = Json b \<and> b \<noteq> [] \<and>
             \<not> int (length b) < per_page \<and>
             extra ! Suc k =
               (clients_request ak nid ts per_page)
                 \<lparr>params := (params (clients_request ak nid ts per_page))
                               (''startingAfter'' \<mapsto> PStr (mac (last b)))\<rparr>)"
    by blast
  { assume "reqs \<noteq> []"
    then show "reqs ! 0 = clients_request ak nid ts per_page" using e(1,2) by simp }
  show "\<forall>k. Suc k < length reqs \<longrightarrow>
         (\<exists>b. net k = Json b \<and> b \<noteq> [] \<and> \<not> int (length b) < per_page \<and>
              reqs ! Suc k =
                (clients_request ak nid ts per_page)
                  \<lparr>params := (params (clients_request ak nid ts per_page))
                                (''startingAfter'' \<mapsto> PStr (mac (last b)))\<rparr>)"
    using e(1,3) by simp
next
  show "params (clients_request ak nid ts per_page) ''startingAfter'' = None"
    by (simp add: clients_request_def)
next
  assume "2 \<le> fuel"
  then obtain f where f: "fuel = Suc (Suc f)"
    by (metis Suc_le_D numeral_2_eq_2 Suc_le_mono)
  show "\<exists>cs rs. get_all_clients fuel two_pages ak nid ts 1000 = (Returned cs, rs) \<and>
           length rs = 2 \<and>
           params (rs ! 1) ''startingAfter'' = Some (PStr ''AA:BB:CC:00:00:01'') \<and>
           length cs = 1200"
    by (simp add: f get_all_clients_def two_pages_def Let_def)
qed

theorem retriever_cursor_is_last_mac_witness:
  "\<exists>cs rs. get_all_clients 2 two_pages ''key'' ''N1'' 86400 1000 = (Returned cs, rs) \<and>
           length rs = 2 \<and>
           params (rs ! 1) ''startingAfter'' = Some (PStr ''AA:BB:CC:00:00:01'') \<and>
           length cs = 1200"
  using retriever_cursor_is_last_mac [of 2 two_pages "''key''" "''N1''" 86400 1000]
  by simp

section \<open>Properties of the Segment Mapper\<close>

lemma prompt_loop_effect:
  "\<exists>mapping' con'. prompt_loop kb vs mapping con = (mapping', con') \<and>
     transcript con' = transcript con @ map (\<lambda>v. Prompt (prompt_text v)) vs \<and>
     consumed con' = consumed con + length vs \<and>
     dom mapping' = dom mapping \<union> set vs \<and>
     (\<forall>k. k \<notin> set vs \<longrightarrow> mapping' k = mapping k) \<and>
     (distinct vs \<longrightarrow> (\<forall>i<length vs. mapping' (vs ! i) = Some (strip (kb (consumed con + i)))))"
proof (induction vs arbitrary: mapping con)
  case Nil
  show ?case by simp
next
  case (Cons v vs)
  let ?m = "mapping(v \<mapsto> strip (kb (consumed con)))"
  let ?c = "con\<lparr>transcript := transcript con @ [Prompt (prompt_text v)],
                 consumed := Suc (consumed con)\<rparr>"
  from Cons.IH [of ?m ?c] obtain m' c' where r:
    "prompt_loop kb vs ?m ?c = (m', c')"
    "transcript c' = transcript ?c @ map (\<lambda>v. Prompt (prompt_text v)) vs"
    "consumed c' = consumed ?c + length vs"
    "dom m' = dom ?m \<union> set vs"
    "\<forall>k. k \<notin> set vs \<longrightarrow> m' k = ?m k"
    "distinct vs \<longrightarrow> (\<forall>i<length vs. m' (vs ! i) = Some (strip (kb (consumed ?c + i))))"
    by blast
  have run: "prompt_loop kb (v # vs) mapping con = (m', c')"
    using r(1) by (simp add: Let_def)
  have t: "transcript c' = transcript con @ map (\<lambda>v. Prompt (prompt_text v)) (v # vs)"
    using r(2) by simp
  have n: "consumed c' = consumed con + length (v # vs)"
    using r(3) by simp
  have d: "dom m' = dom mapping \<union> set (v # vs)"
    using r(4) by auto
  have k: "\<forall>k. k \<notin> set (v # vs) \<longrightarrow> m' k = mapping k"
    using r(5) by auto
  have a: "m' ((v # vs) ! i) = Some (strip (kb (consumed con + i)))"
    if "distinct (v # vs)" "i < length (v # vs)" for i
  proof (cases i)
    case 0
    then show ?thesis using that(1) r(5) by simp
  next
    case (Suc j)
    then show ?thesis using that r(6) by simp
  qed
  from run t n d k a show ?case by blast
qed

lemma py_sorted_ints:
  "py_sorted (Some ` V) = Inr (map Some (sorted_list_of_set V))"
  by (auto simp: py_sorted_def)

lemma py_sorted_mixed: "py_sorted {None, Some 1} = Inl TypeError"
  by (simp add: py_sorted_def)

lemma prompt_for_segments_ints:
  assumes "finite V"
  shows "\<exists>mapping con'. prompt_for_segments (Some ` V) kb con = (Inr mapping, con') \<and>
     transcript con' = transcript con @ Print ''Discovered VLANs:'' #
        map (\<lambda>v. Prompt (prompt_text (Some v))) (sorted_list_of_set V) \<and>
     consumed con' = consumed con + card V \<and>
     dom mapping = Some ` V \<and>
     (\<forall>i<card V. mapping (Some (sorted_list_of_set V ! i)) = Some (strip (kb (consumed con + i))))"
proof -
  let ?vs = "map Some (sorted_list_of_set V)"
  let ?c = "con\<lparr>transcript := transcript con @ [Print ''Discovered VLANs:'']\<rparr>"
  have dist: "distinct ?vs" by (simp add: distinct_map)
  have len: "length ?vs = card V" by simp
  from prompt_loop_effect [of kb ?vs Map.empty ?c] obtain m' c' where r:
    "prompt_loop kb ?vs Map.empty ?c = (m', c')"
    "transcript c' = transcript ?c @ map (\<lambda>v. Prompt (prompt_text v)) ?vs"
    "consumed c' = consumed ?c + length ?vs"
    "dom m' = dom (Map.empty :: segment_map) \<union> set ?vs"
    "distinct ?vs \<longrightarrow> (\<forall>i<length ?vs. m' (?vs ! i) = Some (strip (kb (consumed ?c + i))))"
    by blast
  have run: "prompt_for_segments (Some ` V) kb con = (Inr m', c')"
    using r(1) by (simp add: prompt_for_segments_def py_sorted_ints Let_def)
  have t: "transcript c' = transcript con @ Print ''Discovered VLANs:'' #
        map (\<lambda>v. Prompt (prompt_text (Some v))) (sorted_list_of_set V)"
    using r(2) by (simp add: o_def)
  have n: "consumed c' = consumed con + card V"
    using r(3) by simp
  have d: "dom m' = Some ` V"
    using r(4) assms by simp
  have a: "\<forall>i<card V. m' (Some (sorted_list_of_set V ! i)) = Some (strip (kb (consumed con + i)))"
    using r(5) dist by simp
  from run t n d a show ?thesis by blast
qed

text \<open>
  C7. For every finite set of VLAN numbers, whatever the operator types, the Segment
  Mapper ends without an error; after the line "Discovered VLANs:" its output is
  one prompt for each element of the list of the VLANs in strictly ascending order,
  a list that holds each VLAN of the set once, so there are as many prompts as
  VLANs; it reads that many lines, and the mapping it returns has exactly the VLANs
  of the set as keys.
\<close>

theorem one_prompt_per_vlan_ascending:
  assumes "finite V"
  shows "\<exists>mapping con'. prompt_for_segments (Some ` V) kb con = (Inr mapping, con') \<and>
     transcript con' = transcript con @ Print ''Discovered VLANs:'' #
        map (\<lambda>v. Prompt (prompt_text (Some v))) (sorted_list_of_set V) \<and>
     sorted_wrt (<) (sorted_list_of_set V) \<and>
     set (sorted_list_of_set V) = V \<and>
     length (sorted_list_of_set V) = card V \<and>
     consumed con' = consumed con + card V \<and>
     dom mapping = Some ` V"
  using prompt_for_segments_ints [OF assms, of kb con] assms
  by (auto simp: strict_sorted_iff)

theorem one_prompt_per_vlan_ascending_witness:
  "\<exists>mapping con'.
     prompt_for_segments {Some 30, Some 10, Some 20} (\<lambda>k. '' seg '') \<lparr>transcript = [], consumed = 0\<rparr> =
       (Inr mapping, con') \<and>
     transcript con' =
       [Print ''Discovered VLANs:'',
        Prompt ''  VLAN 10: Enter segment name: '',
        Prompt ''  VLAN 20: Enter segment name: '',
        Prompt ''  VLAN 30: Enter segment name: ''] \<and>
     consumed con' = 3"
proof -
  have f: "finite {30, 10, 20::int}" by simp
  show ?thesis
    using one_prompt_per_vlan_ascending [OF f, of "\<lambda>k. '' seg ''" "\<lparr>transcript = [], consumed = 0\<rparr>"]
    by (simp add: prompt_text_def vlan_str_def str_int_def str_nat.simps)
       (auto simp: numeral_3_eq_3)
qed

section \<open>Properties of the main program\<close>

lemma unique_vlans_wired:
  "unique_vlans (wired cs) = Some ` {v. \<exists>c \<in> set cs. truthy (switchport c) \<and> vlan c = Some v}"
  by (force simp: unique_vlans_def wired_def image_iff)

lemma finite_wired_vlans:
  "finite {v. \<exists>c \<in> set (cs :: client list). truthy (switchport c) \<and> vlan c = Some v}"
proof -
  have "finite (unique_vlans (wired cs))" by (simp add: unique_vlans_def)
  then show ?thesis
    unfolding unique_vlans_wired by (rule finite_imageD) simp
qed

lemma prompt_unique_vlans:
  "\<exists>mapping con'. prompt_for_segments (unique_vlans (wired cs)) kb con = (Inr mapping, con') \<and>
     transcript con' = transcript con @ Print ''Discovered VLANs:'' #
        map (\<lambda>v. Prompt (prompt_text (Some v)))
          (sorted_list_of_set {v. \<exists>c \<in> set cs. truthy (switchport c) \<and> vlan c = Some v}) \<and>
     dom mapping = unique_vlans (wired cs)"
  using prompt_for_segments_ints [OF finite_wired_vlans, of cs kb con]
  unfolding unique_vlans_wired by blast

lemma loop_raises_http:
  "get_all_clients_loop fuel net per_page req clients log = (Raised err, reqs) \<Longrightarrow> err = HTTPError"
  by (induction fuel arbitrary: req clients log)
     (auto simp: Let_def split: response.splits if_splits)

lemma main_no_type_error:
  assumes "main fuel a e fs = Some r"
  shows "raised r \<noteq> Some TypeError"
proof -
  have p: "prompt_for_segments (unique_vlans (wired cs)) kb con \<noteq> (Inl err, con')" for cs kb con err con'
    using prompt_unique_vlans [of cs kb con] by auto
  show ?thesis
    using assms p
    by (auto simp: main_def Let_def get_all_clients_def
             split: response.splits if_splits prod.splits run.splits sum.splits
             dest: loop_raises_http)
qed

lemma main_disk:
  assumes "main fuel a e fs = Some r"
  shows "(raised r \<noteq> None \<and> disk r = fs) \<or>
         (raised r = None \<and> (\<exists>cs m. disk r = write_migration_csv (wired cs) m (output' a) fs))"
  using assms
  by (auto simp: main_def Let_def
           split: response.splits if_splits prod.splits run.splits sum.splits)
     blast+

lemma demo_run:
  "\<exists>r. main (Suc 0) demo_args demo_env Map.empty = Some r \<and> raised r = None \<and>
     out r = [Print ''Fetching all clients...'', Print ''Total clients retrieved: 5'',
              Print ''Discovered VLANs:'', Prompt ''  VLAN 5: Enter segment name: '',
              Print ''Writing migration CSV...'',
              Print (''Done '' @ [CHR 0xC3, CHR 0xA2, CHR 0xE2, CHR 0x82, CHR 0xAC,
                                  CHR 0xE2, CHR 0x80, CHR 0x9D] @
                     '' migration CSV exported to migration_clients.csv'')] \<and>
     disk r = [''migration_clients.csv'' \<mapsto>
        header_text @ [CHR 0x0D, CHR 0x0A] @
        ''X,Eng,,,,,Allow,Imported from migration CSV,No,,No'' @ [CHR 0x0D, CHR 0x0A] @
        ''Y,,,,,,Allow,Imported from migration CSV,No,,No'' @ [CHR 0x0D, CHR 0x0A]]"
  apply (simp add: main_def demo_args_def demo_env_def get_all_clients_def Let_def)
  apply (simp add: demo_clients_def wired_def unique_vlans_def truthy_def
      prompt_for_segments_def py_sorted_def Let_def prompt_text_def vlan_str_def str_int_def
      str_nat.simps strip_def is_space_def)
  apply (simp add: write_migration_csv_def migration_rows_fresh header_row_def header_text_def
      truthy_def dedup_key_def row_of_def dict_get_def csv_text_def writerow_def csv_line_def
      csv_field_def needs_quoting_def)
  done

text \<open>
  C8. When the organization request succeeds and the network identifier is not among
  the identifiers it lists, the run ends, for any number of requests allowed, with
  \<^verbatim>\<open>sys.exit\<close> carrying the message "Error: Network ... not found in organization
  ...": the exit status is 1, nothing has been printed, only the organization request
  has been sent, and the file system is the one the run started with. With the
  networks N1 and N2 and the network identifier N3 this is what happens.
\<close>

theorem unknown_network_exits:
  assumes "org_networks e = Json nets"
    and "network_id a \<notin> set (map net_id nets)"
  shows "\<exists>r. main fuel a e fs = Some r \<and>
           raised r = Some (SystemExit (''Error: Network '' @ network_id a @
                                        '' not found in organization '' @ org_id a)) \<and>
           exit_status r = 1 \<and> out r = [] \<and> length (requested r) = 1 \<and> disk r = fs"
  using assms by (simp add: main_def Let_def exit_status_def)

theorem unknown_network_exits_witness:
  "\<exists>r. main 7 (demo_args\<lparr>network_id := ''N3''\<rparr>) demo_env Map.empty = Some r \<and>
       raised r = Some (SystemExit ''Error: Network N3 not found in organization O1'') \<and>
       exit_status r = 1 \<and> out r = [] \<and> length (requested r) = 1 \<and> disk r = Map.empty"
proof -
  have h1: "org_networks demo_env = Json [\<lparr>net_id = ''N1''\<rparr>, \<lparr>net_id = ''N2''\<rparr>]"
    by (simp add: demo_env_def)
  have h2: "network_id (demo_args\<lparr>network_id := ''N3''\<rparr>)
              \<notin> set (map net_id [\<lparr>net_id = ''N1''\<rparr>, \<lparr>net_id = ''N2''\<rparr>])"
    by simp
  show ?thesis
    using unknown_network_exits [OF h1 h2, of 7 Map.empty]
    by (simp add: demo_args_def)
qed

text \<open>
  C10. The set handed to the Segment Mapper holds exactly the VLAN numbers of the
  clients with a non-empty switchport that have a VLAN; \<^verbatim>\<open>None\<close> is not in it.
  So \<^verbatim>\<open>sorted\<close> returns these numbers in ascending order instead of raising, the
  Segment Mapper returns a mapping and prompts only for these numbers, \<^verbatim>\<open>None\<close> is
  not a key of the mapping, nothing is prompted when no wired client has a VLAN, and
  no run of the program ends with a \<^verbatim>\<open>TypeError\<close>.
\<close>

theorem vlan_set_has_no_none:
  "unique_vlans (wired cs) = Some ` {v. \<exists>c \<in> set cs. truthy (switchport c) \<and> vlan c = Some v}
   \<and> None \<notin> unique_vlans (wired cs)
   \<and> py_sorted (unique_vlans (wired cs)) =
       Inr (map Some (sorted_list_of_set
              {v. \<exists>c \<in> set cs. truthy (switchport c) \<and> vlan c = Some v}))
   \<and> (\<exists>mapping con'.
         prompt_for_segments (unique_vlans (wired cs)) kb con = (Inr mapping, con') \<and>
         transcript con' = transcript con @ Print ''Discovered VLANs:'' #
           map (\<lambda>v. Prompt (prompt_text (Some v)))
             (sorted_list_of_set {v. \<exists>c \<in> set cs. truthy (switchport c) \<and> vlan c = Some v}) \<and>
         None \<notin> dom mapping \<and>
         ((\<forall>c \<in> set cs. truthy (switchport c) \<longrightarrow> vlan c = None) \<longrightarrow>
            transcript con' = transcript con @ [Print ''Discovered VLANs:'']))
   \<and> (main fuel a e fs = Some r \<longrightarrow> raised r \<noteq> Some TypeError)"
proof -
  let ?V = "{v. \<exists>c \<in> set cs. truthy (switchport c) \<and> vlan c = Some v}"
  have a: "unique_vlans (wired cs) = Some ` ?V" by (rule unique_vlans_wired)
  have b: "None \<notin> unique_vlans (wired cs)" unfolding a by simp
  have c: "py_sorted (unique_vlans (wired cs)) = Inr (map Some (sorted_list_of_set ?V))"
    unfolding a by (rule py_sorted_ints)
  from prompt_unique_vlans [of cs kb con] obtain mapping con' where p:
    "prompt_for_segments (unique_vlans (wired cs)) kb con = (Inr mapping, con')"
    "transcript con' = transcript con @ Print ''Discovered VLANs:'' #
        map (\<lambda>v. Prompt (prompt_text (Some v))) (sorted_list_of_set ?V)"
    "dom mapping = unique_vlans (wired cs)"
    by blast
  have n: "None \<notin> dom mapping" using p(3) b by simp
  have q: "transcript con' = transcript con @ [Print ''Discovered VLANs:'']"
    if "\<forall>c \<in> set cs. truthy (switchport c) \<longrightarrow> vlan c = None"
  proof -
    have "?V = {}" using that by auto
    then show ?thesis using p(2) by simp
  qed
  have d: "\<exists>mapping con'.
         prompt_for_segments (unique_vlans (wired cs)) kb con = (Inr mapping, con') \<and>
         transcript con' = transcript con @ Print ''Discovered VLANs:'' #
           map (\<lambda>v. Prompt (prompt_text (Some v))) (sorted_list_of_set ?V) \<and>
         None \<notin> dom mapping \<and>
         ((\<forall>c \<in> set cs. truthy (switchport c) \<longrightarrow> vlan c = None) \<longrightarrow>
            transcript con' = transcript con @ [Print ''Discovered VLANs:''])"
    using p(1,2) n q by blast
  have m: "main fuel a e fs = Some r \<longrightarrow> raised r \<noteq> Some TypeError"
    using main_no_type_error by blast
  from a b c d m show ?thesis by (intro conjI)
qed

theorem vlan_set_has_no_none_witness:
  "unique_vlans (wired demo_clients) = {Some 5}
   \<and> py_sorted (unique_vlans (wired demo_clients)) = Inr [Some 5]
   \<and> (\<exists>r. main (Suc 0) demo_args demo_env Map.empty = Some r \<and> raised r = None)
   \<and> (\<exists>mapping con'.
        prompt_for_segments
          (unique_vlans (wired [\<lparr>mac = ''Y'', vlan = None, switchport = Some ''2''\<rparr>]))
          (\<lambda>k. ''Eng'') \<lparr>transcript = [], consumed = 0\<rparr> = (Inr mapping, con') \<and>
        transcript con' = [Print ''Discovered VLANs:''])"
proof -
  obtain r where r: "main (Suc 0) demo_args demo_env Map.empty = Some r" "raised r = None"
    using demo_run by blast
  have u: "unique_vlans (wired demo_clients) = {Some 5}"
    by (simp add: demo_clients_def wired_def unique_vlans_def truthy_def)
  have s: "py_sorted {Some 5} = Inr [Some 5]"
    by (simp add: py_sorted_def)
  show ?thesis
    using r u s
      vlan_set_has_no_none [of demo_clients "\<lambda>k. ''Eng''" "\<lparr>transcript = [], consumed = 0\<rparr>"
        "Suc 0" demo_args demo_env Map.empty r]
      vlan_set_has_no_none [of "[\<lparr>mac = ''Y'', vlan = None, switchport = Some ''2''\<rparr>]"
        "\<lambda>k. ''Eng''" "\<lparr>transcript = [], consumed = 0\<rparr>"
        "Suc 0" demo_args demo_env Map.empty r]
    by auto
qed

text \<open>
  C9, as stated, fails: the first line of the file written for an empty client list
  is not the header text with a blank after each comma.
\<close>

theorem csv_header_line_not_spaced:
  "first_line (the (write_migration_csv [] Map.empty ''migration_clients.csv'' Map.empty
                      ''migration_clients.csv'')) \<noteq> spec_header_text"
  by (simp add: write_migration_csv_def csv_text_migration_rows first_line_header)
     (simp add: header_text_def spec_header_text_def)

text \<open>
  C9, amended. The file written is the eleven column names joined by single commas
  with no blank between them, then CR LF, then the data rows; its first line is that
  header line, for every client list, mapping, path and file system. A run of the
  program that changes the file system leaves a file with this first line at the
  output path.
\<close>

theorem csv_header_line:
  "write_migration_csv cs m path fs path =
     Some (header_text @ [CHR 0x0D, CHR 0x0A] @ csv_text (data_rows cs m))
   \<and> first_line (the (write_migration_csv cs m path fs path)) = header_text
   \<and> (main fuel a e fs = Some r \<and> disk r \<noteq> fs \<longrightarrow>
        raised r = None \<and> first_line (the (disk r (output' a))) = header_text)"
proof -
  have w: "write_migration_csv cs m path fs path =
     Some (header_text @ [CHR 0x0D, CHR 0x0A] @ csv_text (data_rows cs m))" for cs m path
    by (simp add: write_migration_csv_def csv_text_migration_rows)
  have f: "first_line (the (write_migration_csv cs m path fs path)) = header_text" for cs m path
    unfolding w by (simp add: first_line_header)
  have r: "raised r = None \<and> first_line (the (disk r (output' a))) = header_text"
    if "main fuel a e fs = Some r" "disk r \<noteq> fs"
    using main_disk [OF that(1)] that(2) f by auto
  from w f r show ?thesis by blast
qed

theorem csv_header_line_witness:
  "write_migration_csv [scenario_client] [Some 10 \<mapsto> ''Engineering''] ''out.csv'' Map.empty ''out.csv'' =
     Some (header_text @ [CHR 0x0D, CHR 0x0A] @
           ''00:11:22:33:44:55,Engineering,,,,,Allow,Imported from migration CSV,No,,No'' @
           [CHR 0x0D, CHR 0x0A])
   \<and> (\<exists>r. main (Suc 0) demo_args demo_env Map.empty = Some r \<and> disk r \<noteq> Map.empty \<and>
          first_line (the (disk r ''migration_clients.csv'')) = header_text)"
proof -
  obtain r where r: "main (Suc 0) demo_args demo_env Map.empty = Some r"
    "disk r ''migration_clients.csv'' \<noteq> None"
    using demo_run by auto
  then have d: "disk r \<noteq> Map.empty" by auto
  have o: "output' demo_args = ''migration_clients.csv''" by (simp add: demo_args_def)
  have t: "csv_text (data_rows [scenario_client] [Some 10 \<mapsto> ''Engineering'']) =
     ''00:11:22:33:44:55,Engineering,,,,,Allow,Imported from migration CSV,No,,No'' @
           [CHR 0x0D, CHR 0x0A]"
    by (simp add: data_rows_fresh scenario_client_def truthy_def row_of_def dict_get_def
        csv_text_def writerow_def csv_line_def csv_field_def needs_quoting_def)
  show ?thesis
    using r(1) d o
      csv_header_line [of "[scenario_client]" "[Some 10 \<mapsto> ''Engineering'']" "''out.csv''"
        Map.empty "Suc 0" demo_args demo_env r]
    by (auto simp: t)
qed

end
